theory Spec2Isabelle
  imports Complex_Main
begin

section \<open>Gas storage contract pricing: the data model\<close>

text \<open>
  The embedding follows \<^verbatim>\<open>src/Task_2/gas_storage_pricing.py\<close>, class
  \<^verbatim>\<open>GasStoragePricer\<close>.

  \<^item> A date is a calendar day, held as its day number (Python's \<^verbatim>\<open>date.toordinal()\<close>);
    \<^verbatim>\<open>(b - a).days\<close> is then the difference of two day numbers. The dates reaching
    the pricer are either parsed from \<^verbatim>\<open>'%Y-%m-%d'\<close> strings or pandas month-end
    timestamps, all at midnight.
  \<^item> Prices, volumes and cash amounts are Python floats in the source. They are modelled
    as \<^typ>\<open>real\<close>: arithmetic is exact, rounding is not modelled.
  \<^item> The price table (a pandas DataFrame with columns Dates and Prices) is the list of its
    rows, in row order.
  \<^item> A Python exception is a value of \<open>py_error\<close>; a call that can raise returns
    \<open>py_error + 'a\<close>.
\<close>

type_synonym date = int

datatype py_error = IndexError | KeyError

datatype op_kind = Inject | Withdraw | Liquidate

text \<open>A proposed operation: the tuple \<^verbatim>\<open>(date, 'inject' | 'withdraw', volume, price)\<close>.\<close>

type_synonym proposal = "date \<times> op_kind \<times> real \<times> real"

text \<open>An executed operation: one dictionary of the \<^verbatim>\<open>strategy\<close> list.\<close>

record strategy_entry =
  date :: date
  operation :: op_kind
  volume :: real
  price :: real
  cash_flow :: real
  inventory_after :: real

text \<open>The dictionary returned by \<^verbatim>\<open>optimize_storage_strategy\<close>.\<close>

record valuation =
  strategy :: "strategy_entry list"
  inventory_schedule :: "(date \<times> real) list"
  total_cash_flow :: real
  storage_costs :: real
  contract_value :: real
  price_map :: "(date \<times> real) list"

text \<open>The object state: the two attributes set by \<^verbatim>\<open>__init__\<close>.\<close>

record pricer =
  price_data :: "(date \<times> real) list"
  storage_cost_per_unit_per_day :: real

text \<open>
  \<^verbatim>\<open>__init__\<close>: copy the table, sort its rows by date, store the cost rate.
  (\<^verbatim>\<open>sort_values\<close> is not stable; the order of rows sharing a date is fixed here to
  the stable one. No property below depends on it where dates are unique.)
\<close>

definition GasStoragePricer :: "(date \<times> real) list \<Rightarrow> real \<Rightarrow> pricer" where
  "GasStoragePricer rows c =
     \<lparr>price_data = sort_key fst rows, storage_cost_per_unit_per_day = c\<rparr>"

section \<open>Price interpolation\<close>

text \<open>
  \<^verbatim>\<open>interpolate_price\<close>, lines 42-59. On an empty table \<^verbatim>\<open>min()\<close> and \<^verbatim>\<open>max()\<close>
  are NaT, both comparisons are false, and \<^verbatim>\<open>.iloc[-1]\<close> on the empty selection raises
  IndexError.
\<close>

definition interpolate_price :: "pricer \<Rightarrow> date \<Rightarrow> py_error + real" where
  "interpolate_price self d =
     (let rows = price_data self in
      if rows \<noteq> [] \<and> d \<le> Min (set (map fst rows)) then Inr (snd (hd rows))
      else if rows \<noteq> [] \<and> d \<ge> Max (set (map fst rows)) then Inr (snd (last rows))
      else
        (case filter (\<lambda>r. fst r \<le> d) rows of
           [] \<Rightarrow> Inl IndexError
         | b # bs \<Rightarrow>
            (let before_row = last (b # bs) in
             case filter (\<lambda>r. fst r > d) rows of
               [] \<Rightarrow> Inl IndexError
             | after_row # _ \<Rightarrow>
                (let days_total = fst after_row - fst before_row;
                     days_from_before = d - fst before_row
                 in if days_total = 0 then Inr (snd before_row)
                    else
                      (let weight = real_of_int days_from_before / real_of_int days_total
                       in Inr (snd before_row * (1 - weight) + snd after_row * weight))))))"

section \<open>Storage cost accrual\<close>

text \<open>
  \<^verbatim>\<open>calculate_storage_costs\<close>, lines 71-81: an index loop over
  \<^verbatim>\<open>range(len(inventory_schedule) - 1)\<close> (empty for a schedule of length 0 or 1)
  adding \<^verbatim>\<open>daily_cost * days\<close> to the running total.
\<close>

definition storage_cost_step :: "real \<Rightarrow> (date \<times> real) list \<Rightarrow> nat \<Rightarrow> real \<Rightarrow> real" where
  "storage_cost_step rate sched i total_cost =
     (let (current_date, current_inventory) = sched ! i;
          (next_date, _) = sched ! (i + 1);
          days = next_date - current_date;
          daily_cost = current_inventory * rate
      in total_cost + daily_cost * real_of_int days)"

definition calculate_storage_costs :: "pricer \<Rightarrow> (date \<times> real) list \<Rightarrow> real" where
  "calculate_storage_costs self sched =
     fold (storage_cost_step (storage_cost_per_unit_per_day self) sched)
          [0 ..< length sched - 1] 0"

section \<open>The scheduling heuristic\<close>

text \<open>
  The dictionary comprehension of line 110: one \<^verbatim>\<open>interpolate_price\<close> call per date,
  the first exception ends the call.
\<close>

fun build_price_map :: "pricer \<Rightarrow> date list \<Rightarrow> py_error + (date \<times> real) list" where
  "build_price_map self [] = Inr []"
| "build_price_map self (d # ds) =
     (case interpolate_price self d of
        Inl e \<Rightarrow> Inl e
      | Inr p \<Rightarrow>
         (case build_price_map self ds of
            Inl e \<Rightarrow> Inl e
          | Inr pm \<Rightarrow> Inr ((d, p) # pm)))"

text \<open>
  The list comprehensions of lines 113-114: \<^verbatim>\<open>price_map[date]\<close> for each candidate
  date; a missing key raises KeyError.
\<close>

fun lookup_prices :: "(date \<times> real) list \<Rightarrow> date list \<Rightarrow> py_error + (date \<times> real) list" where
  "lookup_prices pm [] = Inr []"
| "lookup_prices pm (d # ds) =
     (case map_of pm d of
        None \<Rightarrow> Inl KeyError
      | Some p \<Rightarrow>
         (case lookup_prices pm ds of
            Inl e \<Rightarrow> Inl e
          | Inr rest \<Rightarrow> Inr ((d, p) # rest)))"

text \<open>
  The injection proposal loop, lines 129-135. The state of the loop is the pair
  \<^verbatim>\<open>(all_operations, current_inventory)\<close>; the loop body reads
  \<^verbatim>\<open>current_inventory\<close> and never assigns it.
\<close>

fun injection_pass ::
  "real \<Rightarrow> real \<Rightarrow> (date \<times> real) list \<Rightarrow> (date \<times> real) list \<Rightarrow>
   proposal list \<times> real \<Rightarrow> proposal list \<times> real" where
  "injection_pass rate cap withdrawal_prices [] st = st"
| "injection_pass rate cap withdrawal_prices ((inj_date, inj_price) # rest)
       (all_operations, current_inventory) =
     (let profitable_withdrawals =
            filter (\<lambda>w. snd w > inj_price \<and> fst w > inj_date) withdrawal_prices
      in if profitable_withdrawals \<noteq> [] \<and> current_inventory < cap then
           (let volume_to_inject = min rate (cap - current_inventory)
            in if volume_to_inject > 0 then
                 injection_pass rate cap withdrawal_prices rest
                   (all_operations @ [(inj_date, Inject, volume_to_inject, inj_price)],
                    current_inventory)
               else injection_pass rate cap withdrawal_prices rest
                      (all_operations, current_inventory))
         else injection_pass rate cap withdrawal_prices rest
                (all_operations, current_inventory))"

text \<open>The withdrawal proposal loop, lines 138-146.\<close>

fun withdrawal_pass :: "real \<Rightarrow> (date \<times> real) list \<Rightarrow> proposal list \<Rightarrow> proposal list" where
  "withdrawal_pass rate [] all_operations = all_operations"
| "withdrawal_pass rate ((with_date, with_price) # rest) all_operations =
     (let prior_injections =
            filter (\<lambda>(d, k, v, p). d < with_date \<and> k = Inject) all_operations
      in if prior_injections \<noteq> [] then
           (let available_volume = sum_list (map (\<lambda>(d, k, v, p). v) prior_injections)
            in if available_volume > 0 then
                 (let volume_to_withdraw = min rate available_volume
                  in withdrawal_pass rate rest
                       (all_operations @ [(with_date, Withdraw, volume_to_withdraw, with_price)]))
               else withdrawal_pass rate rest all_operations)
         else withdrawal_pass rate rest all_operations)"

text \<open>
  The execution loop, lines 155-181. Its state is
  \<^verbatim>\<open>(current_inventory, total_cash_flow, strategy, inventory_schedule)\<close>.
\<close>

type_synonym exec_state = "real \<times> real \<times> strategy_entry list \<times> (date \<times> real) list"

fun execution_pass :: "real \<Rightarrow> proposal list \<Rightarrow> exec_state \<Rightarrow> exec_state" where
  "execution_pass cap [] st = st"
| "execution_pass cap ((d, k, v, p) # ops) (current_inventory, tcf, strat, sched) =
     (let (current_inventory', tcf', strat') =
        (if k = Inject then
           (if current_inventory + v \<le> cap then
              (current_inventory + v, tcf - v * p,
               strat @ [\<lparr>date = d, operation = Inject, volume = v, price = p,
                          cash_flow = - v * p, inventory_after = current_inventory + v\<rparr>])
            else (current_inventory, tcf, strat))
         else if k = Withdraw then
           (if current_inventory \<ge> v then
              (current_inventory - v, tcf + v * p,
               strat @ [\<lparr>date = d, operation = Withdraw, volume = v, price = p,
                          cash_flow = v * p, inventory_after = current_inventory - v\<rparr>])
            else (current_inventory, tcf, strat))
         else (current_inventory, tcf, strat))
      in execution_pass cap ops
           (current_inventory', tcf', strat', sched @ [(d, current_inventory')]))"

text \<open>
  Lines 108-149: the price map, the two price-sorted candidate lists (Python's sort is
  stable, also with \<^verbatim>\<open>reverse=True\<close>), the two proposal loops and the stable sort
  of the proposals by date.
\<close>

definition all_dates_of :: "date list \<Rightarrow> date list \<Rightarrow> date \<Rightarrow> date \<Rightarrow> date list" where
  "all_dates_of injection_dates withdrawal_dates contract_start contract_end =
     sort (remdups (injection_dates @ withdrawal_dates @ [contract_start, contract_end]))"

definition proposals_of ::
  "real \<Rightarrow> real \<Rightarrow> (date \<times> real) list \<Rightarrow> (date \<times> real) list \<Rightarrow> proposal list" where
  "proposals_of rate cap injection_prices withdrawal_prices =
     (let injection_sorted = sort_key snd injection_prices;
          withdrawal_sorted = sort_key (\<lambda>x. - snd x) withdrawal_prices;
          (all_operations, current_inventory) =
             injection_pass rate cap withdrawal_sorted injection_sorted ([], 0);
          all_operations = withdrawal_pass rate withdrawal_sorted all_operations
      in sort_key fst all_operations)"

text \<open>Lines 183-211: forced liquidation, the closing sample, cost and value.\<close>

definition finish ::
  "pricer \<Rightarrow> date \<Rightarrow> (date \<times> real) list \<Rightarrow> exec_state \<Rightarrow> py_error + valuation" where
  "finish self contract_end pm st =
     (let (current_inventory, tcf, strat, sched) = st;
          liquidated =
            (if current_inventory > 0 then
               (case interpolate_price self contract_end of
                  Inl e \<Rightarrow> Inl e
                | Inr end_price \<Rightarrow>
                    Inr (tcf + current_inventory * end_price,
                         strat @ [\<lparr>date = contract_end, operation = Liquidate,
                                    volume = current_inventory, price = end_price,
                                    cash_flow = current_inventory * end_price,
                                    inventory_after = 0\<rparr>]))
             else Inr (tcf, strat))
      in case liquidated of
           Inl e \<Rightarrow> Inl e
         | Inr (tcf', strat') \<Rightarrow>
            (let sched' = sched @ [(contract_end, 0)];
                 costs = calculate_storage_costs self sched'
             in Inr \<lparr>strategy = strat', inventory_schedule = sched',
                     total_cash_flow = tcf', storage_costs = costs,
                     contract_value = tcf' - costs, price_map = pm\<rparr>))"

definition optimize_storage_strategy ::
  "pricer \<Rightarrow> date list \<Rightarrow> date list \<Rightarrow> real \<Rightarrow> real \<Rightarrow> date \<Rightarrow> date \<Rightarrow>
   py_error + valuation" where
  "optimize_storage_strategy self injection_dates withdrawal_dates
       injection_withdrawal_rate max_storage_volume contract_start contract_end =
     (case build_price_map self
             (all_dates_of injection_dates withdrawal_dates contract_start contract_end) of
        Inl e \<Rightarrow> Inl e
      | Inr pm \<Rightarrow>
         (case lookup_prices pm injection_dates of
            Inl e \<Rightarrow> Inl e
          | Inr injection_prices \<Rightarrow>
             (case lookup_prices pm withdrawal_dates of
                Inl e \<Rightarrow> Inl e
              | Inr withdrawal_prices \<Rightarrow>
                 finish self contract_end pm
                   (execution_pass max_storage_volume
                      (proposals_of injection_withdrawal_rate max_storage_volume
                         injection_prices withdrawal_prices)
                      (0, 0, [], [(contract_start, 0)])))))"

text \<open>
  \<^verbatim>\<open>price_contract\<close>, lines 248-262, on dates that are already parsed. The override
  is assigned to the object before the strategy is computed, so the updated object is
  returned beside the outcome, whether the outcome is a result or an exception.
\<close>

definition price_contract ::
  "pricer \<Rightarrow> date list \<Rightarrow> date list \<Rightarrow> real \<Rightarrow> real \<Rightarrow> date \<Rightarrow> date \<Rightarrow> real option \<Rightarrow>
   (py_error + valuation) \<times> pricer" where
  "price_contract self injection_dates withdrawal_dates injection_withdrawal_rate
       max_storage_volume contract_start contract_end cost_override =
     (let self' = (case cost_override of
                     None \<Rightarrow> self
                   | Some c \<Rightarrow> self\<lparr>storage_cost_per_unit_per_day := c\<rparr>)
      in (optimize_storage_strategy self' injection_dates withdrawal_dates
            injection_withdrawal_rate max_storage_volume contract_start contract_end,
          self'))"

section \<open>The proposal loops, one candidate at a time\<close>

text \<open>
  What one iteration of the injection proposal loop appends for the candidate \<open>c\<close>, as a
  function of the value \<open>counter\<close> that \<^verbatim>\<open>current_inventory\<close> has in that iteration
  (lines 131-135).
\<close>

definition injection_proposal ::
  "real \<Rightarrow> real \<Rightarrow> real \<Rightarrow> (date \<times> real) list \<Rightarrow> date \<times> real \<Rightarrow> proposal list" where
  "injection_proposal rate cap counter withdrawal_prices c =
     (if (\<exists>w\<in>set withdrawal_prices. snd w > snd c \<and> fst w > fst c) \<and> counter < cap
         \<and> min rate (cap - counter) > 0
      then [(fst c, Inject, min rate (cap - counter), snd c)] else [])"

text \<open>
  The withdrawal proposal step in the words of the specification (section 4.3, step 4):
  the injection proposals dated strictly before a withdrawal date, their gross volume, and
  the withdrawal proposed from them: volume \<open>min(rate, gross volume)\<close> when such proposals
  exist with positive aggregate volume, nothing otherwise. Nothing here looks at
  withdrawals proposed earlier.
\<close>

definition earlier_injections :: "proposal list \<Rightarrow> date \<Rightarrow> proposal list" where
  "earlier_injections ops d = filter (\<lambda>(d', k, v, p). d' < d \<and> k = Inject) ops"

definition gross_injected_before :: "proposal list \<Rightarrow> date \<Rightarrow> real" where
  "gross_injected_before ops d = sum_list (map (\<lambda>(d', k, v, p). v) (earlier_injections ops d))"

definition withdrawal_proposal :: "real \<Rightarrow> proposal list \<Rightarrow> date \<times> real \<Rightarrow> proposal list" where
  "withdrawal_proposal rate injections c =
     (if earlier_injections injections (fst c) \<noteq> [] \<and> gross_injected_before injections (fst c) > 0
      then [(fst c, Withdraw, min rate (gross_injected_before injections (fst c)), snd c)]
      else [])"

section \<open>Properties of the price interpolation\<close>

lemma sorted_hd_Min:
  fixes xs :: "int list"
  assumes "xs \<noteq> []" "sorted xs"
  shows "hd xs = Min (set xs)"
proof -
  obtain y ys where xs: "xs = y # ys" using assms(1) by (cases xs) auto
  with assms(2) have "\<forall>z\<in>set xs. y \<le> z" by auto
  then have "Min (set xs) = y"
    using xs by (intro Min_eqI) auto
  with xs show ?thesis by simp
qed

lemma sorted_le_last:
  fixes xs :: "int list"
  shows "sorted xs \<Longrightarrow> z \<in> set xs \<Longrightarrow> z \<le> last xs"
  by (induction xs) auto

lemma sorted_last_Max:
  fixes xs :: "int list"
  assumes "xs \<noteq> []" "sorted xs"
  shows "last xs = Max (set xs)"
proof -
  have "\<forall>z\<in>set xs. z \<le> last xs"
    using assms(2) by (simp add: sorted_le_last)
  then have "Max (set xs) = last xs"
    using assms(1) by (intro Max_eqI) auto
  then show ?thesis by simp
qed

lemma interpolate_price_empty:
  "price_data self = [] \<Longrightarrow> interpolate_price self d = Inl IndexError"
  by (simp add: interpolate_price_def)

lemma interpolate_price_total:
  assumes "price_data self \<noteq> []"
  shows "\<exists>p. interpolate_price self d = Inr p"
proof -
  let ?rows = "price_data self"
  let ?ds = "set (map fst ?rows)"
  have fin: "finite ?ds" and ne: "?ds \<noteq> {}" using assms by auto
  show ?thesis
  proof (cases "d \<le> Min ?ds \<or> d \<ge> Max ?ds")
    case True
    then show ?thesis using assms by (auto simp: interpolate_price_def Let_def)
  next
    case False
    then have lo: "Min ?ds < d" and hi: "d < Max ?ds" by auto
    have "Min ?ds \<in> ?ds" using fin ne by (rule Min_in)
    then obtain r where r: "r \<in> set ?rows" "fst r = Min ?ds" by auto
    then have "r \<in> set (filter (\<lambda>r. fst r \<le> d) ?rows)" using lo by auto
    then obtain b bs where b: "filter (\<lambda>r. fst r \<le> d) ?rows = b # bs"
      by (cases "filter (\<lambda>r. fst r \<le> d) ?rows") auto
    have "Max ?ds \<in> ?ds" using fin ne by (rule Max_in)
    then obtain q where q: "q \<in> set ?rows" "fst q = Max ?ds" by auto
    then have "q \<in> set (filter (\<lambda>r. fst r > d) ?rows)" using hi by auto
    then obtain a as where a: "filter (\<lambda>r. fst r > d) ?rows = a # as"
      by (cases "filter (\<lambda>r. fst r > d) ?rows") auto
    show ?thesis using False a b
      by (simp add: interpolate_price_def Let_def)
  qed
qed


lemma before_row_nearest:
  fixes rs :: "(int \<times> real) list"
  assumes "sorted (map fst rs)" "filter (\<lambda>r. fst r \<le> d) rs \<noteq> []"
  shows "fst (last (filter (\<lambda>r. fst r \<le> d) rs)) = Max {x \<in> fst ` set rs. x \<le> d}"
proof -
  let ?fs = "filter (\<lambda>r. fst r \<le> d) rs"
  have "sorted (map fst ?fs)" using assms(1) by (rule sorted_filter)
  moreover have "map fst ?fs \<noteq> []" using assms(2) by simp
  ultimately have "last (map fst ?fs) = Max (set (map fst ?fs))"
    by (intro sorted_last_Max)
  moreover have "set (map fst ?fs) = {x \<in> fst ` set rs. x \<le> d}" by auto
  moreover have "last (map fst ?fs) = fst (last ?fs)" using assms(2) by (simp add: last_map)
  ultimately show ?thesis by simp
qed

lemma after_row_nearest:
  fixes rs :: "(int \<times> real) list"
  assumes "sorted (map fst rs)" "filter (\<lambda>r. fst r > d) rs \<noteq> []"
  shows "fst (hd (filter (\<lambda>r. fst r > d) rs)) = Min {x \<in> fst ` set rs. d < x}"
proof -
  let ?fs = "filter (\<lambda>r. fst r > d) rs"
  have "sorted (map fst ?fs)" using assms(1) by (rule sorted_filter)
  moreover have "map fst ?fs \<noteq> []" using assms(2) by simp
  ultimately have "hd (map fst ?fs) = Min (set (map fst ?fs))"
    by (intro sorted_hd_Min)
  moreover have "set (map fst ?fs) = {x \<in> fst ` set rs. d < x}" by auto
  moreover have "hd (map fst ?fs) = fst (hd ?fs)" using assms(2) by (simp add: hd_map)
  ultimately show ?thesis by simp
qed

lemma interpolate_price_between:
  assumes srt: "sorted (map fst (price_data self))"
    and ne: "price_data self \<noteq> []"
    and lo: "Min (fst ` set (price_data self)) < d"
    and hi: "d < Max (fst ` set (price_data self))"
  shows "\<exists>b a. b \<in> set (price_data self) \<and> a \<in> set (price_data self)
           \<and> fst b = Max {x \<in> fst ` set (price_data self). x \<le> d}
           \<and> fst a = Min {x \<in> fst ` set (price_data self). d < x}
           \<and> fst b \<le> d \<and> d < fst a
           \<and> interpolate_price self d =
               Inr (snd b * (1 - real_of_int (d - fst b) / real_of_int (fst a - fst b))
                    + snd a * (real_of_int (d - fst b) / real_of_int (fst a - fst b)))"
proof -
  let ?rows = "price_data self"
  let ?ds = "fst ` set ?rows"
  let ?bs = "filter (\<lambda>r. fst r \<le> d) ?rows"
  let ?as = "filter (\<lambda>r. fst r > d) ?rows"
  have fin: "finite ?ds" and nes: "?ds \<noteq> {}" using ne by auto
  have "Min ?ds \<in> ?ds" using fin nes by (rule Min_in)
  then obtain r where "r \<in> set ?rows" "fst r = Min ?ds" by auto
  then have "r \<in> set ?bs" using lo by auto
  then have bne: "?bs \<noteq> []" by (cases ?bs) auto
  have "Max ?ds \<in> ?ds" using fin nes by (rule Max_in)
  then obtain q where "q \<in> set ?rows" "fst q = Max ?ds" by auto
  then have "q \<in> set ?as" using hi by auto
  then have ane: "?as \<noteq> []" by (cases ?as) auto
  define b where "b = last ?bs"
  define a where "a = hd ?as"
  have bin: "b \<in> set ?bs" unfolding b_def using bne by (rule last_in_set)
  have ain: "a \<in> set ?as" unfolding a_def using ane by (rule hd_in_set)
  have bd: "fst b \<le> d" and ad: "d < fst a" using bin ain by auto
  have b_near: "fst b = Max {x \<in> ?ds. x \<le> d}"
    unfolding b_def using srt bne by (rule before_row_nearest)
  have a_near: "fst a = Min {x \<in> ?ds. d < x}"
    unfolding a_def using srt ane by (rule after_row_nearest)
  obtain b0 bs0 where bs: "?bs = b0 # bs0" using bne by (cases ?bs) auto
  obtain a0 as0 where as: "?as = a0 # as0" using ane by (cases ?as) auto
  have a0: "a = a0" unfolding a_def as by simp
  have bl: "b = last (b0 # bs0)" unfolding b_def bs by simp
  have nz: "fst a - fst b \<noteq> 0" using bd ad by simp
  have c1: "\<not> (?rows \<noteq> [] \<and> d \<le> Min (set (map fst ?rows)))" using lo by simp
  have c2: "\<not> (?rows \<noteq> [] \<and> d \<ge> Max (set (map fst ?rows)))" using hi by simp
  have val: "interpolate_price self d =
          Inr (snd b * (1 - real_of_int (d - fst b) / real_of_int (fst a - fst b))
               + snd a * (real_of_int (d - fst b) / real_of_int (fst a - fst b)))"
    by (simp only: interpolate_price_def Let_def c1 c2 if_False bs as list.case
          a0[symmetric] bl[symmetric] nz)
  have bin': "b \<in> set ?rows" and ain': "a \<in> set ?rows" using bin ain by auto
  show ?thesis
    by (rule exI[of _ b], rule exI[of _ a]) (intro conjI bin' ain' b_near a_near bd ad val)
qed


lemma price_data_GasStoragePricer:
  "price_data (GasStoragePricer rows c) = sort_key fst rows"
  by (simp add: GasStoragePricer_def)

lemma unique_price:
  assumes "distinct (map fst rows)" "r \<in> set rows" "(fst r, p) \<in> set rows"
  shows "snd r = p"
proof -
  have "(fst r, snd r) \<in> set rows" using assms(2) by simp
  from eq_key_imp_eq_value[OF assms(1) this assms(3)] show ?thesis .
qed

lemma sort_key_nonempty:
  "rows \<noteq> [] \<Longrightarrow> sort_key f rows \<noteq> []"
  by (metis length_sort length_0_conv)

lemma interpolate_price_first_ex:
  assumes ne: "rows \<noteq> []" and d: "d \<le> Min (fst ` set rows)"
  shows "\<exists>p. (Min (fst ` set rows), p) \<in> set rows
           \<and> interpolate_price (GasStoragePricer rows c) d = Inr p"
proof -
  let ?rs = "sort_key fst rows"
  have ne': "?rs \<noteq> []" using ne by (rule sort_key_nonempty)
  have "hd (map fst ?rs) = Min (set (map fst ?rs))"
    using ne' by (intro sorted_hd_Min) simp_all
  then have hd_min: "fst (hd ?rs) = Min (fst ` set rows)"
    using ne' by (simp add: hd_map)
  have "hd ?rs \<in> set rows" using ne' hd_in_set[of ?rs] by simp
  then have "(Min (fst ` set rows), snd (hd ?rs)) \<in> set rows"
    using hd_min by (metis prod.collapse)
  moreover have "interpolate_price (GasStoragePricer rows c) d = Inr (snd (hd ?rs))"
    using ne' d by (simp add: interpolate_price_def price_data_GasStoragePricer)
  ultimately show ?thesis by blast
qed

lemma interpolate_price_last_ex:
  assumes ne: "rows \<noteq> []" and d: "d \<ge> Max (fst ` set rows)"
  shows "\<exists>p. (Max (fst ` set rows), p) \<in> set rows
           \<and> interpolate_price (GasStoragePricer rows c) d = Inr p"
proof (cases "d \<le> Min (fst ` set rows)")
  case True
  have "Min (fst ` set rows) \<le> Max (fst ` set rows)" using ne by simp
  with True d have "Min (fst ` set rows) = Max (fst ` set rows)" by simp
  with interpolate_price_first_ex[OF ne True, of c] show ?thesis by simp
next
  case False
  let ?rs = "sort_key fst rows"
  have ne': "?rs \<noteq> []" using ne by (rule sort_key_nonempty)
  have "last (map fst ?rs) = Max (set (map fst ?rs))"
    using ne' by (intro sorted_last_Max) simp_all
  then have last_max: "fst (last ?rs) = Max (fst ` set rows)"
    using ne' by (simp add: last_map)
  have "last ?rs \<in> set rows" using ne' last_in_set[of ?rs] by simp
  then have "(Max (fst ` set rows), snd (last ?rs)) \<in> set rows"
    using last_max by (metis prod.collapse)
  moreover have "interpolate_price (GasStoragePricer rows c) d = Inr (snd (last ?rs))"
    using ne' False d by (simp add: interpolate_price_def price_data_GasStoragePricer)
  ultimately show ?thesis by blast
qed

lemma interpolate_price_first:
  assumes ne: "rows \<noteq> []" and dist: "distinct (map fst rows)"
    and p: "(Min (fst ` set rows), p) \<in> set rows"
    and d: "d \<le> Min (fst ` set rows)"
  shows "interpolate_price (GasStoragePricer rows c) d = Inr p"
proof -
  from interpolate_price_first_ex[OF ne d, of c] obtain q
    where q: "(Min (fst ` set rows), q) \<in> set rows"
      and v: "interpolate_price (GasStoragePricer rows c) d = Inr q" by blast
  from eq_key_imp_eq_value[OF dist q p] v show ?thesis by simp
qed

lemma interpolate_price_last:
  assumes ne: "rows \<noteq> []" and dist: "distinct (map fst rows)"
    and p: "(Max (fst ` set rows), p) \<in> set rows"
    and d: "d \<ge> Max (fst ` set rows)"
  shows "interpolate_price (GasStoragePricer rows c) d = Inr p"
proof -
  from interpolate_price_last_ex[OF ne d, of c] obtain q
    where q: "(Max (fst ` set rows), q) \<in> set rows"
      and v: "interpolate_price (GasStoragePricer rows c) d = Inr q" by blast
  from eq_key_imp_eq_value[OF dist q p] v show ?thesis by simp
qed

lemma interpolate_price_between_init:
  assumes ne: "rows \<noteq> []"
    and lo: "Min (fst ` set rows) < d"
    and hi: "d < Max (fst ` set rows)"
  shows "\<exists>b a. b \<in> set rows \<and> a \<in> set rows
           \<and> fst b = Max {x \<in> fst ` set rows. x \<le> d}
           \<and> fst a = Min {x \<in> fst ` set rows. d < x}
           \<and> fst b \<le> d \<and> d < fst a
           \<and> interpolate_price (GasStoragePricer rows c) d =
               Inr (snd b * (1 - real_of_int (d - fst b) / real_of_int (fst a - fst b))
                    + snd a * (real_of_int (d - fst b) / real_of_int (fst a - fst b)))"
proof -
  let ?self = "GasStoragePricer rows c"
  have pd: "price_data ?self = sort_key fst rows" by (rule price_data_GasStoragePricer)
  have st: "set (price_data ?self) = set rows" by (simp add: pd)
  have a1: "sorted (map fst (price_data ?self))" by (simp add: pd)
  have a2: "price_data ?self \<noteq> []" unfolding pd using ne by (rule sort_key_nonempty)
  have a3: "Min (fst ` set (price_data ?self)) < d" using lo by (simp only: st)
  have a4: "d < Max (fst ` set (price_data ?self))" using hi by (simp only: st)
  from interpolate_price_between[OF a1 a2 a3 a4] show ?thesis unfolding st .
qed

lemma interpolate_price_observed:
  assumes dist: "distinct (map fst rows)" and obs: "(d, p) \<in> set rows"
  shows "interpolate_price (GasStoragePricer rows c) d = Inr p"
proof -
  let ?ds = "fst ` set rows"
  have ne: "rows \<noteq> []" using obs by auto
  have fin: "finite ?ds" by simp
  have din: "d \<in> ?ds" using obs by force
  have min_le: "Min ?ds \<le> d" using fin din by (rule Min_le)
  have le_max: "d \<le> Max ?ds" using fin din by (rule Max_ge)
  consider "d \<le> Min ?ds" | "d \<ge> Max ?ds" | "Min ?ds < d" "d < Max ?ds" by linarith
  then show ?thesis
  proof cases
    case 1
    with min_le have "Min ?ds = d" by simp
    with obs have "(Min ?ds, p) \<in> set rows" by simp
    with ne dist show ?thesis using 1 by (rule interpolate_price_first)
  next
    case 2
    with le_max have "Max ?ds = d" by simp
    with obs have "(Max ?ds, p) \<in> set rows" by simp
    with ne dist show ?thesis using 2 by (rule interpolate_price_last)
  next
    case 3
    from interpolate_price_between_init[OF ne 3, of c]
    obtain b a where b: "b \<in> set rows" and fb: "fst b = Max {x \<in> ?ds. x \<le> d}"
      and v: "interpolate_price (GasStoragePricer rows c) d =
               Inr (snd b * (1 - real_of_int (d - fst b) / real_of_int (fst a - fst b))
                    + snd a * (real_of_int (d - fst b) / real_of_int (fst a - fst b)))"
      by blast
    have "Max {x \<in> ?ds. x \<le> d} = d"
      using din by (intro Max_eqI) auto
    with fb have fbd: "fst b = d" by simp
    with obs have "(fst b, p) \<in> set rows" by simp
    with dist b have "snd b = p" by (rule unique_price)
    with v fbd show ?thesis by simp
  qed
qed

text \<open>
  Claim C5. For a pricer built from a non-empty table and a query date strictly between
  the earliest and the latest observed date, \<open>interpolate_price\<close> returns
  \<open>before.price * (1 - weight) + after.price * weight\<close>, where \<open>before\<close> is a row on
  the latest observed date at or before the query, \<open>after\<close> a row on the earliest observed
  date after it, and \<open>weight\<close> the quotient of the two integer day counts. On the table
  (2021-01-01, 10.0), (2021-01-11, 20.0) the price at 2021-01-06 is 15.0 (the dates are
  the day numbers 737791, 737801 and 737796).
\<close>

theorem interpolate_price_linear:
  "(rows \<noteq> [] \<and> Min (fst ` set rows) < d \<and> d < Max (fst ` set rows) \<longrightarrow>
      (\<exists>b a. b \<in> set rows \<and> a \<in> set rows
         \<and> fst b = Max {x \<in> fst ` set rows. x \<le> d}
         \<and> fst a = Min {x \<in> fst ` set rows. d < x}
         \<and> fst b \<le> d \<and> d < fst a
         \<and> interpolate_price (GasStoragePricer rows c) d =
             Inr (snd b * (1 - real_of_int (d - fst b) / real_of_int (fst a - fst b))
                  + snd a * (real_of_int (d - fst b) / real_of_int (fst a - fst b)))))
   \<and> interpolate_price (GasStoragePricer [(737791, 10), (737801, 20)] c) 737796 = Inr 15"
proof (intro conjI impI)
  assume "rows \<noteq> [] \<and> Min (fst ` set rows) < d \<and> d < Max (fst ` set rows)"
  then have ne: "rows \<noteq> []" and lo: "Min (fst ` set rows) < d"
    and hi: "d < Max (fst ` set rows)" by simp_all
  from interpolate_price_between_init[OF ne lo hi]
  show "\<exists>b a. b \<in> set rows \<and> a \<in> set rows
         \<and> fst b = Max {x \<in> fst ` set rows. x \<le> d}
         \<and> fst a = Min {x \<in> fst ` set rows. d < x}
         \<and> fst b \<le> d \<and> d < fst a
         \<and> interpolate_price (GasStoragePricer rows c) d =
             Inr (snd b * (1 - real_of_int (d - fst b) / real_of_int (fst a - fst b))
                  + snd a * (real_of_int (d - fst b) / real_of_int (fst a - fst b)))" .
next
  show "interpolate_price (GasStoragePricer [(737791, 10), (737801, 20)] c) 737796 = Inr 15"
    by (simp add: interpolate_price_def GasStoragePricer_def)
qed

theorem interpolate_price_linear_witness:
  "[(20, 40), (0, 10), (10, 20 :: real)] \<noteq> []
   \<and> Min (fst ` set [(20 :: int, 40 :: real), (0, 10), (10, 20)]) < 14
   \<and> 14 < Max (fst ` set [(20 :: int, 40 :: real), (0, 10), (10, 20)])
   \<and> interpolate_price (GasStoragePricer [(20, 40), (0, 10), (10, 20)] 0) 14 = Inr 28"
proof -
  let ?rows = "[(20 :: int, 40 :: real), (0, 10), (10, 20)]"
  have h: "?rows \<noteq> [] \<and> Min (fst ` set ?rows) < 14 \<and> 14 < Max (fst ` set ?rows)"
    by simp
  with interpolate_price_linear[of ?rows 14 0]
  obtain b a where b: "b \<in> set ?rows" and a: "a \<in> set ?rows"
    and fb: "fst b = Max {x \<in> fst ` set ?rows. x \<le> 14}"
    and fa: "fst a = Min {x \<in> fst ` set ?rows. 14 < x}"
    and v: "interpolate_price (GasStoragePricer ?rows 0) 14 =
             Inr (snd b * (1 - real_of_int (14 - fst b) / real_of_int (fst a - fst b))
                  + snd a * (real_of_int (14 - fst b) / real_of_int (fst a - fst b)))"
    by blast
  have "{x \<in> fst ` set ?rows. x \<le> 14} = {0, 10}" by auto
  with fb have "fst b = 10" by simp
  with b have b': "b = (10, 20)" by auto
  have "{x \<in> fst ` set ?rows. 14 < x} = {20}" by auto
  with fa have "fst a = 20" by simp
  with a have a': "a = (20, 40)" by auto
  have "interpolate_price (GasStoragePricer ?rows 0) 14 = Inr 28"
    unfolding v b' a' by simp
  with h show ?thesis by simp
qed

text \<open>
  Claim C8. For a pricer built from a non-empty table: a query at or before the earliest
  observed date returns exactly a price observed on the earliest date, and a query at or
  after the latest observed date returns exactly a price observed on the latest date.
  (With unique dates there is one such price.)
\<close>

theorem flat_extrapolation:
  assumes "rows \<noteq> []"
  shows "(d_lo \<le> Min (fst ` set rows) \<longrightarrow>
            (\<exists>p. (Min (fst ` set rows), p) \<in> set rows
                 \<and> interpolate_price (GasStoragePricer rows c) d_lo = Inr p))
       \<and> (d_hi \<ge> Max (fst ` set rows) \<longrightarrow>
            (\<exists>p. (Max (fst ` set rows), p) \<in> set rows
                 \<and> interpolate_price (GasStoragePricer rows c) d_hi = Inr p))"
  using interpolate_price_first_ex[OF assms, of d_lo c]
    interpolate_price_last_ex[OF assms, of d_hi c]
  by blast

theorem flat_extrapolation_witness:
  "[(10, 3), (0, 1), (20, 5 :: real)] \<noteq> []
   \<and> interpolate_price (GasStoragePricer [(10, 3), (0, 1), (20, 5)] 0) (- 4) = Inr 1
   \<and> interpolate_price (GasStoragePricer [(10, 3), (0, 1), (20, 5)] 0) 0 = Inr 1
   \<and> interpolate_price (GasStoragePricer [(10, 3), (0, 1), (20, 5)] 0) 20 = Inr 5
   \<and> interpolate_price (GasStoragePricer [(10, 3), (0, 1), (20, 5)] 0) 25 = Inr 5"
proof -
  let ?rows = "[(10 :: int, 3 :: real), (0, 1), (20, 5)]"
  let ?self = "GasStoragePricer ?rows 0"
  have h: "?rows \<noteq> []" by simp
  have mn: "Min (fst ` set ?rows) = 0" and mx: "Max (fst ` set ?rows) = 20" by simp_all
  have lo: "interpolate_price ?self d = Inr 1" if "d \<le> 0" for d
  proof -
    from flat_extrapolation[OF h, where d_lo = d and c = 0] that mn
    obtain p where "(0, p) \<in> set ?rows" "interpolate_price ?self d = Inr p" by auto
    then show ?thesis by auto
  qed
  have hi: "interpolate_price ?self d = Inr 5" if "20 \<le> d" for d
  proof -
    from flat_extrapolation[OF h, where d_hi = d and c = 0] that mx
    obtain p where "(20, p) \<in> set ?rows" "interpolate_price ?self d = Inr p" by auto
    then show ?thesis by auto
  qed
  from lo[of "- 4"] lo[of 0] hi[of 20] hi[of 25] h show ?thesis by simp
qed

text \<open>
  Claim C10. For a pricer built from a table with unique dates, every observed point is
  a fixed point of the interpolation: at an observed date \<open>interpolate_price\<close> returns
  the price observed on that date.
\<close>

theorem observed_points_fixed:
  assumes "distinct (map fst rows)" and "(d, p) \<in> set rows"
  shows "interpolate_price (GasStoragePricer rows c) d = Inr p"
  using assms by (rule interpolate_price_observed)

theorem observed_points_fixed_witness:
  "distinct (map fst [(10 :: int, 3 :: real), (0, 1), (20, 5)])
   \<and> (10, 3) \<in> set [(10 :: int, 3 :: real), (0, 1), (20, 5)]
   \<and> interpolate_price (GasStoragePricer [(10, 3), (0, 1), (20, 5)] 0) 10 = Inr 3"
proof -
  let ?rows = "[(10 :: int, 3 :: real), (0, 1), (20, 5)]"
  have h1: "distinct (map fst ?rows)" by simp
  have h2: "(10, 3) \<in> set ?rows" by simp
  from observed_points_fixed[OF h1 h2, of 0] h1 h2 show ?thesis by simp
qed

section \<open>Properties of the storage cost\<close>

lemma fold_storage_cost_step:
  "fold (storage_cost_step rate sched) [0 ..< n] acc =
     acc + (\<Sum>i<n. snd (sched ! i) * real_of_int (fst (sched ! (i + 1)) - fst (sched ! i)) * rate)"
proof (induction n)
  case 0
  then show ?case by simp
next
  case (Suc n)
  have "fold (storage_cost_step rate sched) [0 ..< Suc n] acc =
          storage_cost_step rate sched n (fold (storage_cost_step rate sched) [0 ..< n] acc)"
    by simp
  also have "\<dots> = fold (storage_cost_step rate sched) [0 ..< n] acc
                 + snd (sched ! n) * real_of_int (fst (sched ! (n + 1)) - fst (sched ! n)) * rate"
    by (simp add: storage_cost_step_def split_beta Let_def)
  finally show ?case using Suc.IH by simp
qed

lemma calculate_storage_costs_sum:
  "calculate_storage_costs self sched =
     (\<Sum>i<length sched - 1.
        snd (sched ! i) * real_of_int (fst (sched ! (i + 1)) - fst (sched ! i))
          * storage_cost_per_unit_per_day self)"
  by (simp add: calculate_storage_costs_def fold_storage_cost_step)

lemma sum_list_consecutive_pairs:
  fixes f :: "'a \<times> 'a \<Rightarrow> real"
  shows "sum_list (map f (zip xs (tl xs))) = (\<Sum>i<length xs - 1. f (xs ! i, xs ! (i + 1)))"
proof -
  have len: "length (zip xs (tl xs)) = length xs - 1" by simp
  have "sum_list (map f (zip xs (tl xs))) =
          (\<Sum>i = 0 ..< length xs - 1. map f (zip xs (tl xs)) ! i)"
    using sum_list_sum_nth[of "map f (zip xs (tl xs))"] by (simp only: length_map len)
  also have "\<dots> = (\<Sum>i = 0 ..< length xs - 1. f (xs ! i, xs ! (i + 1)))"
    by (rule sum.cong) (auto simp: nth_tl)
  finally show ?thesis by (simp add: atLeast0LessThan)
qed


text \<open>
  Claim C6. The storage cost of a schedule is the sum, over the consecutive pairs of
  samples, of the inventory level of the leading sample times the number of days between
  the two sample dates times the storage cost rate: a step function of the leading level,
  never an average of the two levels.
\<close>

theorem storage_cost_is_step_sum:
  "calculate_storage_costs self sched =
     sum_list (map (\<lambda>((d1, level1), (d2, level2)).
                      level1 * real_of_int (d2 - d1) * storage_cost_per_unit_per_day self)
                   (zip sched (tl sched)))"
  by (simp only: calculate_storage_costs_sum sum_list_consecutive_pairs split_beta fst_conv snd_conv)


text \<open>
  Claim C7, as the code has it. The claim for every schedule fails: the day count between
  two samples is negative when the second sample is dated before the first, and nothing
  orders the samples by date. The schedule below is the one the engine itself builds for
  a contract that ends before its candidate dates (see \<open>schedule_of_early_end\<close>).
\<close>

theorem storage_cost_negative_counterexample:
  "calculate_storage_costs (GasStoragePricer [(0, 10), (100, 20)] 1)
     [(- 2000, 0), (10, 50), (20, 100), (30, 50), (- 1000, 0)] = - 50000"
  by (simp add: calculate_storage_costs_def storage_cost_step_def GasStoragePricer_def)

text \<open>
  Claim C7, amended: when the sample dates are in non-decreasing order, all inventory
  levels are non-negative and the cost rate is non-negative, the storage cost is
  non-negative.
\<close>

theorem storage_cost_nonneg:
  assumes "sorted (map fst sched)"
    and "\<forall>s\<in>set sched. 0 \<le> snd s"
    and "0 \<le> storage_cost_per_unit_per_day self"
  shows "0 \<le> calculate_storage_costs self sched"
proof -
  have "0 \<le> snd (sched ! i) * real_of_int (fst (sched ! (i + 1)) - fst (sched ! i))
              * storage_cost_per_unit_per_day self"
    if i: "i < length sched - 1" for i
  proof -
    have i1: "i + 1 < length sched" using i by simp
    have "0 \<le> snd (sched ! i)" using assms(2) i1 by simp
    moreover have "map fst sched ! i \<le> map fst sched ! (i + 1)"
      using assms(1) i1 by (intro sorted_nth_mono) simp_all
    then have "0 \<le> real_of_int (fst (sched ! (i + 1)) - fst (sched ! i))"
      using i1 by simp
    ultimately show ?thesis using assms(3) by simp
  qed
  then show ?thesis
    unfolding calculate_storage_costs_sum by (intro sum_nonneg) simp
qed

theorem storage_cost_nonneg_witness:
  "sorted (map fst [(0 :: int, 0 :: real), (10, 50), (40, 0)])
   \<and> list_all (\<lambda>s. 0 \<le> snd s) [(0 :: int, 0 :: real), (10, 50), (40, 0)]
   \<and> 0 \<le> calculate_storage_costs (GasStoragePricer [(0, 10)] (1 / 100)) [(0, 0), (10, 50), (40, 0)]
   \<and> calculate_storage_costs (GasStoragePricer [(0, 10)] (1 / 100)) [(0, 0), (10, 50), (40, 0)] = 15"
proof -
  let ?sched = "[(0 :: int, 0 :: real), (10, 50), (40, 0)]"
  let ?self = "GasStoragePricer [(0, 10)] (1 / 100)"
  have h1: "sorted (map fst ?sched)" by simp
  have h2: "\<forall>s\<in>set ?sched. 0 \<le> snd s" by simp
  have h3: "0 \<le> storage_cost_per_unit_per_day ?self" by (simp add: GasStoragePricer_def)
  have "calculate_storage_costs ?self ?sched = 15"
    by (simp add: calculate_storage_costs_def storage_cost_step_def GasStoragePricer_def)
  with h1 h2 storage_cost_nonneg[OF h1 h2 h3] show ?thesis by simp
qed

section \<open>Properties of the scheduling heuristic\<close>

subsection \<open>The proposal loops in closed form\<close>

lemma injection_pass_unfold:
  "injection_pass rate cap wps ips (ops, cur) =
     (ops @ concat (map (injection_proposal rate cap cur wps) ips), cur)"
proof (induction ips arbitrary: ops)
  case Nil
  then show ?case by simp
next
  case (Cons c ips)
  obtain d p where c: "c = (d, p)" by (cases c)
  have "(filter (\<lambda>w. snd w > p \<and> fst w > d) wps \<noteq> []) =
          (\<exists>w\<in>set wps. snd w > p \<and> fst w > d)"
    by (simp add: filter_empty_conv)
  then show ?case
    unfolding c by (simp add: Cons.IH injection_proposal_def Let_def)
qed

lemma earlier_injections_append_withdrawals:
  assumes "\<forall>x\<in>set extra. fst (snd x) = Withdraw"
  shows "earlier_injections (ops @ extra) d = earlier_injections ops d"
proof -
  have "filter (\<lambda>(d', k, v, p). d' < d \<and> k = Inject) extra = []"
    using assms by (auto simp: filter_empty_conv)
  then show ?thesis by (simp add: earlier_injections_def)
qed

lemma withdrawal_proposal_kind:
  "\<forall>x\<in>set (withdrawal_proposal rate ops c). fst (snd x) = Withdraw"
  by (simp add: withdrawal_proposal_def)

lemma withdrawal_pass_unfold_gen:
  assumes "\<forall>x\<in>set extra. fst (snd x) = Withdraw"
  shows "withdrawal_pass rate wps (ops @ extra) =
           ops @ extra @ concat (map (withdrawal_proposal rate ops) wps)"
  using assms
proof (induction wps arbitrary: extra)
  case Nil
  then show ?case by simp
next
  case (Cons c wps)
  obtain d p where c: "c = (d, p)" by (cases c)
  have ei: "earlier_injections (ops @ extra) d = earlier_injections ops d"
    using Cons.prems by (rule earlier_injections_append_withdrawals)
  let ?new = "withdrawal_proposal rate ops c"
  have new: "\<forall>x\<in>set (extra @ ?new). fst (snd x) = Withdraw"
    using Cons.prems withdrawal_proposal_kind[of rate ops c] by auto
  have step: "withdrawal_pass rate (c # wps) (ops @ extra) =
                withdrawal_pass rate wps (ops @ (extra @ ?new))"
    unfolding c
    using ei
    by (simp add: withdrawal_proposal_def gross_injected_before_def Let_def
          earlier_injections_def)
  show ?case
    unfolding step Cons.IH[OF new] by simp
qed

lemma withdrawal_pass_unfold:
  "withdrawal_pass rate wps ops = ops @ concat (map (withdrawal_proposal rate ops) wps)"
  using withdrawal_pass_unfold_gen[of "[]" rate wps ops] by simp


lemma injection_proposal_elem:
  assumes "x \<in> set (injection_proposal rate cap 0 wps c)"
  shows "fst (snd x) = Inject \<and> fst (snd (snd x)) = min rate cap \<and> 0 < min rate cap"
  using assms by (auto simp: injection_proposal_def split: if_splits)

lemma withdrawal_proposal_elem:
  assumes "x \<in> set (withdrawal_proposal rate ops c)"
  shows "fst (snd (snd x)) = min rate (gross_injected_before ops (fst c))
         \<and> 0 < gross_injected_before ops (fst c)
         \<and> earlier_injections ops (fst c) \<noteq> []"
  using assms by (auto simp: withdrawal_proposal_def split: if_splits)

lemma proposals_of_set:
  "set (proposals_of rate cap ips wps) =
     (let inj = concat (map (injection_proposal rate cap 0 (sort_key (\<lambda>x. - snd x) wps))
                          (sort_key snd ips))
      in set inj \<union> set (concat (map (withdrawal_proposal rate inj) (sort_key (\<lambda>x. - snd x) wps))))"
  by (simp add: proposals_of_def injection_pass_unfold withdrawal_pass_unfold Let_def)

lemma proposals_of_volume_pos:
  assumes "x \<in> set (proposals_of rate cap ips wps)"
  shows "0 < fst (snd (snd x))"
proof -
  let ?wps = "sort_key (\<lambda>x. - snd x) wps"
  let ?inj = "concat (map (injection_proposal rate cap 0 ?wps) (sort_key snd ips))"
  have inj_pos: "0 < min rate cap" if "y \<in> set ?inj" for y
    using that injection_proposal_elem[of y rate cap ?wps] by auto
  from assms consider (inj) "x \<in> set ?inj"
    | (wd) c where "x \<in> set (withdrawal_proposal rate ?inj c)"
    by (auto simp: proposals_of_set Let_def)
  then show ?thesis
  proof cases
    case inj
    then obtain c where "x \<in> set (injection_proposal rate cap 0 ?wps c)" by auto
    then show ?thesis using injection_proposal_elem[of x rate cap ?wps c] by simp
  next
    case wd
    from withdrawal_proposal_elem[OF wd]
    have v: "fst (snd (snd x)) = min rate (gross_injected_before ?inj (fst c))"
      and g: "0 < gross_injected_before ?inj (fst c)"
      and e: "earlier_injections ?inj (fst c) \<noteq> []" by simp_all
    from e obtain y where "y \<in> set (earlier_injections ?inj (fst c))"
      by (cases "earlier_injections ?inj (fst c)") auto
    then have "y \<in> set ?inj" by (simp add: earlier_injections_def)
    then have "0 < min rate cap" by (rule inj_pos)
    then have "0 < rate" by simp
    with v g show ?thesis by simp
  qed
qed

lemma proposals_of_nonpositive:
  assumes "rate \<le> 0 \<or> cap \<le> 0"
  shows "proposals_of rate cap ips wps = []"
proof -
  have no: "\<not> 0 < min rate cap" using assms by auto
  have inj: "injection_proposal rate cap 0 ws c = []" for ws c
    using no by (simp add: injection_proposal_def)
  have wd: "withdrawal_proposal rate [] c = []" for c
    by (simp add: withdrawal_proposal_def earlier_injections_def)
  have inj': "concat (map (injection_proposal rate cap 0 ws) xs) = []" for ws xs
    by (simp add: inj)
  have wd': "concat (map (withdrawal_proposal rate []) xs) = []" for xs
    by (simp add: wd)
  show ?thesis
    by (simp add: proposals_of_def injection_pass_unfold withdrawal_pass_unfold inj' wd' Let_def)
qed

lemma execution_pass_bounds:
  assumes "\<forall>x\<in>set ops. 0 \<le> fst (snd (snd x))"
    and "0 \<le> cur" and "cur \<le> cap"
    and "\<forall>s\<in>set sched. 0 \<le> snd s \<and> snd s \<le> cap"
  shows "case execution_pass cap ops (cur, tcf, strat, sched) of
           (cur', tcf', strat', sched') \<Rightarrow>
             0 \<le> cur' \<and> cur' \<le> cap \<and> (\<forall>s\<in>set sched'. 0 \<le> snd s \<and> snd s \<le> cap)"
  using assms
proof (induction ops arbitrary: cur tcf strat sched)
  case Nil
  then show ?case by simp
next
  case (Cons x ops)
  obtain d k v p where x: "x = (d, k, v, p)" by (cases x)
  have v: "0 \<le> v" using Cons.prems(1) x by simp
  have rest: "\<forall>x\<in>set ops. 0 \<le> fst (snd (snd x))" using Cons.prems(1) by simp
  define cur' where "cur' =
    (if k = Inject then (if cur + v \<le> cap then cur + v else cur)
     else if k = Withdraw then (if cur \<ge> v then cur - v else cur) else cur)"
  have b: "0 \<le> cur'" "cur' \<le> cap"
    using v Cons.prems(2,3) by (auto simp: cur'_def)
  have "\<exists>tcf' strat'. execution_pass cap (x # ops) (cur, tcf, strat, sched) =
       execution_pass cap ops (cur', tcf', strat', sched @ [(d, cur')])"
    unfolding x cur'_def by auto
  then obtain tcf' strat' where step:
    "execution_pass cap (x # ops) (cur, tcf, strat, sched) =
       execution_pass cap ops (cur', tcf', strat', sched @ [(d, cur')])"
    by blast
  have "\<forall>s\<in>set (sched @ [(d, cur')]). 0 \<le> snd s \<and> snd s \<le> cap"
    using Cons.prems(4) b by simp
  from Cons.IH[OF rest b this] show ?case unfolding step .
qed

lemma build_price_map_total:
  assumes "price_data self \<noteq> []"
  shows "\<exists>pm. build_price_map self ds = Inr pm \<and> map fst pm = ds"
proof (induction ds)
  case Nil
  then show ?case by simp
next
  case (Cons d ds)
  from interpolate_price_total[OF assms, of d] obtain p
    where "interpolate_price self d = Inr p" ..
  with Cons.IH show ?case by auto
qed

lemma build_price_map_empty:
  assumes "price_data self = []" and "ds \<noteq> []"
  shows "build_price_map self ds = Inl IndexError"
  using assms by (cases ds) (simp_all add: interpolate_price_empty)

lemma lookup_prices_total:
  assumes "set ds \<subseteq> fst ` set pm"
  shows "\<exists>ps. lookup_prices pm ds = Inr ps"
  using assms
proof (induction ds)
  case Nil
  then show ?case by simp
next
  case (Cons d ds)
  then have "d \<in> fst ` set pm" by simp
  then obtain p where "map_of pm d = Some p"
    by (metis map_of_eq_None_iff not_Some_eq)
  with Cons show ?case by auto
qed

lemma all_dates_of_set:
  "set (all_dates_of ids wds cs ce) = set ids \<union> set wds \<union> {cs, ce}"
  by (auto simp: all_dates_of_def)

lemma optimize_storage_strategy_nonempty:
  assumes "price_data self \<noteq> []"
  shows "\<exists>pm ips wps. optimize_storage_strategy self ids wds rate cap cs ce =
           finish self ce pm
             (execution_pass cap (proposals_of rate cap ips wps) (0, 0, [], [(cs, 0)]))"
proof -
  from build_price_map_total[OF assms, of "all_dates_of ids wds cs ce"]
  obtain pm where pm: "build_price_map self (all_dates_of ids wds cs ce) = Inr pm"
    and keys: "map fst pm = all_dates_of ids wds cs ce" by blast
  have "fst ` set pm = set ids \<union> set wds \<union> {cs, ce}"
    using keys all_dates_of_set[of ids wds cs ce] by (metis set_map)
  then have "set ids \<subseteq> fst ` set pm" and "set wds \<subseteq> fst ` set pm" by auto
  then obtain ips wps where "lookup_prices pm ids = Inr ips" "lookup_prices pm wds = Inr wps"
    using lookup_prices_total by blast
  with pm show ?thesis by (auto simp: optimize_storage_strategy_def)
qed

lemma optimize_storage_strategy_empty:
  assumes "price_data self = []"
  shows "optimize_storage_strategy self ids wds rate cap cs ce = Inl IndexError"
proof -
  have "all_dates_of ids wds cs ce \<noteq> []"
    using all_dates_of_set[of ids wds cs ce] by (metis Un_insert_right insert_not_empty set_empty)
  with assms show ?thesis
    by (simp add: optimize_storage_strategy_def build_price_map_empty)
qed

lemma finish_nonempty:
  assumes "price_data self \<noteq> []"
  shows "\<exists>res. finish self ce pm (cur, tcf, strat, sched) = Inr res
           \<and> inventory_schedule res = sched @ [(ce, 0)]
           \<and> storage_costs res = calculate_storage_costs self (sched @ [(ce, 0)])
           \<and> contract_value res = total_cash_flow res - storage_costs res
           \<and> price_map res = pm
           \<and> (\<not> 0 < cur \<longrightarrow> strategy res = strat \<and> total_cash_flow res = tcf)"
proof -
  from interpolate_price_total[OF assms, of ce] obtain p
    where "interpolate_price self ce = Inr p" ..
  then show ?thesis by (simp add: finish_def Let_def)
qed

lemma injection_pass_counter_unchanged:
  "snd (injection_pass rate cap wps ips (ops, cur)) = cur"
  by (simp add: injection_pass_unfold)

lemma withdrawal_pass_example:
  "withdrawal_pass 50 [(40, 14), (30, 13)] [(10, Inject, 50, 11)] =
     [(10, Inject, 50, 11), (40, Withdraw, 50, 14), (30, Withdraw, 50, 13)]"
  by simp

lemma price_contract_fst:
  "fst (price_contract self ids wds rate cap cs ce ov) =
     optimize_storage_strategy
       (case ov of None \<Rightarrow> self | Some c \<Rightarrow> self\<lparr>storage_cost_per_unit_per_day := c\<rparr>)
       ids wds rate cap cs ce"
  by (simp add: price_contract_def Let_def)

lemma price_data_override:
  "price_data (case ov of None \<Rightarrow> self | Some c \<Rightarrow> self\<lparr>storage_cost_per_unit_per_day := c\<rparr>)
     = price_data self"
  by (cases ov) simp_all

lemma optimize_schedule_bounds:
  assumes ne: "price_data self \<noteq> []" and cap: "0 \<le> cap"
  shows "\<exists>res. optimize_storage_strategy self ids wds rate cap cs ce = Inr res
           \<and> (\<forall>s\<in>set (inventory_schedule res). 0 \<le> snd s \<and> snd s \<le> cap)"
proof -
  from optimize_storage_strategy_nonempty[OF ne, of ids wds rate cap cs ce]
  obtain pm ips wps where opt:
    "optimize_storage_strategy self ids wds rate cap cs ce =
       finish self ce pm
         (execution_pass cap (proposals_of rate cap ips wps) (0, 0, [], [(cs, 0)]))"
    by blast
  obtain cur tcf strat sched where ex:
    "execution_pass cap (proposals_of rate cap ips wps) (0, 0, [], [(cs, 0)]) =
       (cur, tcf, strat, sched)"
    by (metis prod_cases4)
  have vols: "\<forall>x\<in>set (proposals_of rate cap ips wps). 0 \<le> fst (snd (snd x))"
    using proposals_of_volume_pos[of _ rate cap ips wps] by (auto intro: less_imp_le)
  have init: "\<forall>s\<in>set [(cs, 0 :: real)]. 0 \<le> snd s \<and> snd s \<le> cap"
    using cap by simp
  have zero: "(0 :: real) \<le> 0" by simp
  from execution_pass_bounds[OF vols zero cap init, of 0 "[]"]
  have sched: "\<forall>s\<in>set sched. 0 \<le> snd s \<and> snd s \<le> cap"
    unfolding ex by simp
  from finish_nonempty[OF ne, of ce pm cur tcf strat sched]
  obtain res where res: "finish self ce pm (cur, tcf, strat, sched) = Inr res"
    and isched: "inventory_schedule res = sched @ [(ce, 0)]" by blast
  have "\<forall>s\<in>set (inventory_schedule res). 0 \<le> snd s \<and> snd s \<le> cap"
    unfolding isched using sched cap by simp
  with res show ?thesis unfolding opt ex by blast
qed

lemma calculate_storage_costs_flat:
  "calculate_storage_costs self [(cs, 0), (ce, 0)] = 0"
  by (simp add: calculate_storage_costs_def storage_cost_step_def)

lemma optimize_no_operations:
  assumes ne: "price_data self \<noteq> []" and np: "rate \<le> 0 \<or> cap \<le> 0"
  shows "\<exists>res. optimize_storage_strategy self ids wds rate cap cs ce = Inr res
           \<and> strategy res = [] \<and> inventory_schedule res = [(cs, 0), (ce, 0)]
           \<and> total_cash_flow res = 0 \<and> storage_costs res = 0 \<and> contract_value res = 0"
proof -
  from optimize_storage_strategy_nonempty[OF ne, of ids wds rate cap cs ce]
  obtain pm ips wps where opt:
    "optimize_storage_strategy self ids wds rate cap cs ce =
       finish self ce pm
         (execution_pass cap (proposals_of rate cap ips wps) (0, 0, [], [(cs, 0)]))"
    by blast
  have ex: "execution_pass cap (proposals_of rate cap ips wps) (0, 0, [], [(cs, 0)]) =
              (0, 0, [], [(cs, 0)])"
    by (simp add: proposals_of_nonpositive[OF np])
  from finish_nonempty[OF ne, of ce pm 0 0 "[]" "[(cs, 0)]"]
  obtain res where "finish self ce pm (0, 0, [], [(cs, 0)]) = Inr res"
    "inventory_schedule res = [(cs, 0)] @ [(ce, 0)]"
    "storage_costs res = calculate_storage_costs self ([(cs, 0)] @ [(ce, 0)])"
    "contract_value res = total_cash_flow res - storage_costs res"
    "strategy res = []" "total_cash_flow res = 0"
    by auto
  then show ?thesis
    unfolding opt ex by (simp add: calculate_storage_costs_flat)
qed

lemma finish_storage_costs:
  assumes "finish self ce pm st = Inr res"
  shows "storage_costs res = calculate_storage_costs self (inventory_schedule res)"
  using assms
  by (cases st) (auto simp: finish_def Let_def split: if_splits sum.splits)

lemma optimize_storage_costs:
  assumes "optimize_storage_strategy self ids wds rate cap cs ce = Inr res"
  shows "storage_costs res = calculate_storage_costs self (inventory_schedule res)"
  using assms
  by (auto simp: optimize_storage_strategy_def split: sum.splits dest: finish_storage_costs)

lemma schedule_of_early_end:
  "fst (price_contract (GasStoragePricer [(0, 10), (100, 20)] 1)
          [10, 20] [30] 50 100 (- 2000) (- 1000) None) =
     Inr \<lparr>strategy =
            [\<lparr>date = 10, operation = Inject, volume = 50, price = 11,
               cash_flow = - 550, inventory_after = 50\<rparr>,
             \<lparr>date = 20, operation = Inject, volume = 50, price = 12,
               cash_flow = - 600, inventory_after = 100\<rparr>,
             \<lparr>date = 30, operation = Withdraw, volume = 50, price = 13,
               cash_flow = 650, inventory_after = 50\<rparr>,
             \<lparr>date = - 1000, operation = Liquidate, volume = 50, price = 10,
               cash_flow = 500, inventory_after = 0\<rparr>],
          inventory_schedule = [(- 2000, 0), (10, 50), (20, 100), (30, 50), (- 1000, 0)],
          total_cash_flow = 0, storage_costs = - 50000, contract_value = 50000,
          price_map = [(- 2000, 10), (- 1000, 10), (10, 11), (20, 12), (30, 13)]\<rparr>"
  by (simp add: price_contract_def optimize_storage_strategy_def all_dates_of_def
        interpolate_price_def GasStoragePricer_def proposals_of_def finish_def
        calculate_storage_costs_def storage_cost_step_def)

subsection \<open>The injection proposal loop\<close>

text \<open>
  Claim C1. The injection proposal loop reads \<^verbatim>\<open>current_inventory\<close> in its capacity
  check and in the proposed volume, and never assigns it (\<open>injection_pass_counter_unchanged\<close>):
  the counter does not increase with an accepted proposal. With rate 60 and capacity 100
  and two candidate dates that both have a later, dearer withdrawal date, both dates get a
  proposal of \<open>min(60, 100 - 0) = 60\<close> and the counter is 0 at the end of the loop; a
  counter advanced by each accepted proposal would be 60 at the second date and give it
  \<open>min(60, 40) = 40\<close>. In the whole call the execution loop then skips the second
  injection (60 + 60 exceeds 100) and the inventory stays at 60.
\<close>

theorem injection_counter_never_advances:
  "injection_pass 60 100 [(30, 13)] [(10, 11), (20, 12)] ([], 0) =
     ([(10, Inject, 60, 11), (20, Inject, 60, 12)], 0)
   \<and> fst (price_contract (GasStoragePricer [(0, 10), (100, 20)] (1 / 100))
            [10, 20] [30] 60 100 0 40 None) =
     Inr \<lparr>strategy =
            [\<lparr>date = 10, operation = Inject, volume = 60, price = 11,
               cash_flow = - 660, inventory_after = 60\<rparr>,
             \<lparr>date = 30, operation = Withdraw, volume = 60, price = 13,
               cash_flow = 780, inventory_after = 0\<rparr>],
          inventory_schedule = [(0, 0), (10, 60), (20, 60), (30, 0), (40, 0)],
          total_cash_flow = 120, storage_costs = 12, contract_value = 108,
          price_map = [(0, 10), (10, 11), (20, 12), (30, 13), (40, 14)]\<rparr>"
  by (simp add: price_contract_def optimize_storage_strategy_def all_dates_of_def
        interpolate_price_def GasStoragePricer_def proposals_of_def finish_def
        calculate_storage_costs_def storage_cost_step_def)

subsection \<open>The withdrawal proposal loop\<close>

text \<open>
  Claim C2. The candidate withdrawal dates are taken in descending order of price, and for
  each of them the loop appends a withdrawal of volume \<open>min(rate, gross volume of the
  injection proposals dated strictly earlier)\<close> exactly when such proposals exist with
  positive aggregate volume. The figure is computed from the proposals present when the
  loop starts: the withdrawals the loop has appended meanwhile are never subtracted.
\<close>

theorem withdrawal_pass_gross:
  "withdrawal_pass rate (sort_key (\<lambda>x. - snd x) withdrawal_prices) all_operations =
     all_operations @
       concat (map (withdrawal_proposal rate all_operations)
                 (sort_key (\<lambda>x. - snd x) withdrawal_prices))
   \<and> sorted_wrt (\<lambda>a b. snd a \<ge> snd b) (sort_key (\<lambda>x. - snd x) withdrawal_prices)"
proof
  show "withdrawal_pass rate (sort_key (\<lambda>x. - snd x) withdrawal_prices) all_operations =
     all_operations @
       concat (map (withdrawal_proposal rate all_operations)
                 (sort_key (\<lambda>x. - snd x) withdrawal_prices))"
    by (rule withdrawal_pass_unfold)
next
  have "sorted (map (\<lambda>x. - snd x) (sort_key (\<lambda>x. - snd x) withdrawal_prices))"
    by (rule sorted_sort_key)
  then show "sorted_wrt (\<lambda>a b. snd a \<ge> snd b) (sort_key (\<lambda>x. - snd x) withdrawal_prices)"
    by (simp add: sorted_map)
qed

subsection \<open>The inventory schedule stays within the storage\<close>

text \<open>
  Claim C4. A valuation call on a non-empty price table with a storage capacity that is
  not negative returns a result, and every sample of its inventory schedule has a level
  of at least 0 and at most \<open>max_storage_volume\<close>, whatever the candidate dates, the
  rate, the contract dates and the cost rate are. (On an empty table the call raises and
  there is no schedule; the two synthetic samples at level 0 are the reason for the bound
  on the capacity.)
\<close>

theorem inventory_schedule_bounds:
  assumes "price_data self \<noteq> []" and "0 \<le> max_storage_volume"
  shows "\<exists>res. fst (price_contract self injection_dates withdrawal_dates
                      injection_withdrawal_rate max_storage_volume
                      contract_start contract_end cost_override) = Inr res
           \<and> (\<forall>s\<in>set (inventory_schedule res). 0 \<le> snd s \<and> snd s \<le> max_storage_volume)"
  unfolding price_contract_fst
  using assms by (intro optimize_schedule_bounds) (simp_all add: price_data_override)

theorem inventory_schedule_bounds_witness:
  "price_data (GasStoragePricer [(0, 10), (100, 20)] (1 / 100)) \<noteq> []
   \<and> (0 :: real) \<le> 100
   \<and> (\<exists>res. fst (price_contract (GasStoragePricer [(0, 10), (100, 20)] (1 / 100))
                    [10, 20] [30] 60 100 0 40 None) = Inr res
          \<and> inventory_schedule res = [(0, 0), (10, 60), (20, 60), (30, 0), (40, 0)]
          \<and> list_all (\<lambda>s. 0 \<le> snd s \<and> snd s \<le> 100) (inventory_schedule res))"
proof -
  let ?self = "GasStoragePricer [(0, 10), (100, 20)] (1 / 100)"
  have h1: "price_data ?self \<noteq> []" by (simp add: GasStoragePricer_def)
  have h2: "(0 :: real) \<le> 100" by simp
  from inventory_schedule_bounds[OF h1 h2, of "[10, 20]" "[30]" 60 0 40 None]
  obtain res where r: "fst (price_contract ?self [10, 20] [30] 60 100 0 40 None) = Inr res"
    and b: "\<forall>s\<in>set (inventory_schedule res). 0 \<le> snd s \<and> snd s \<le> 100" by blast
  have "fst (price_contract ?self [10, 20] [30] 60 100 0 40 None) =
     Inr \<lparr>strategy =
            [\<lparr>date = 10, operation = Inject, volume = 60, price = 11,
               cash_flow = - 660, inventory_after = 60\<rparr>,
             \<lparr>date = 30, operation = Withdraw, volume = 60, price = 13,
               cash_flow = 780, inventory_after = 0\<rparr>],
          inventory_schedule = [(0, 0), (10, 60), (20, 60), (30, 0), (40, 0)],
          total_cash_flow = 120, storage_costs = 12, contract_value = 108,
          price_map = [(0, 10), (10, 11), (20, 12), (30, 13), (40, 14)]\<rparr>"
    by (simp add: price_contract_def optimize_storage_strategy_def all_dates_of_def
        interpolate_price_def GasStoragePricer_def proposals_of_def finish_def
        calculate_storage_costs_def storage_cost_step_def)
  with r have s: "inventory_schedule res = [(0, 0), (10, 60), (20, 60), (30, 0), (40, 0)]"
    by auto
  from b have "list_all (\<lambda>s. 0 \<le> snd s \<and> snd s \<le> 100) (inventory_schedule res)"
    by (simp add: list_all_iff)
  with r s h1 h2 show ?thesis by blast
qed

subsection \<open>Invalid inputs\<close>

text \<open>
  Claim C3, as the code has it. The claim fails: the call validates nothing. A rate of 0, a
  capacity of -5, and a contract that ends before it starts each give a result, not an
  error.
\<close>

theorem counterexample_no_rejection:
  "fst (price_contract (GasStoragePricer [(0, 10), (100, 20)] (1 / 100))
          [10, 20] [30] 0 100 0 40 None) =
     Inr \<lparr>strategy = [], inventory_schedule = [(0, 0), (40, 0)],
          total_cash_flow = 0, storage_costs = 0, contract_value = 0,
          price_map = [(0, 10), (10, 11), (20, 12), (30, 13), (40, 14)]\<rparr>
   \<and> fst (price_contract (GasStoragePricer [(0, 10), (100, 20)] (1 / 100))
          [10, 20] [30] 50 (- 5) 0 40 None) =
     Inr \<lparr>strategy = [], inventory_schedule = [(0, 0), (40, 0)],
          total_cash_flow = 0, storage_costs = 0, contract_value = 0,
          price_map = [(0, 10), (10, 11), (20, 12), (30, 13), (40, 14)]\<rparr>
   \<and> fst (price_contract (GasStoragePricer [(0, 10), (100, 20)] (1 / 100))
          [10] [30] 50 100 40 0 None) =
     Inr \<lparr>strategy =
            [\<lparr>date = 10, operation = Inject, volume = 50, price = 11,
               cash_flow = - 550, inventory_after = 50\<rparr>,
             \<lparr>date = 30, operation = Withdraw, volume = 50, price = 13,
               cash_flow = 650, inventory_after = 0\<rparr>],
          inventory_schedule = [(40, 0), (10, 50), (30, 0), (0, 0)],
          total_cash_flow = 100, storage_costs = 10, contract_value = 90,
          price_map = [(0, 10), (10, 11), (30, 13), (40, 14)]\<rparr>"
  by (simp add: price_contract_def optimize_storage_strategy_def all_dates_of_def
        interpolate_price_def GasStoragePricer_def proposals_of_def finish_def
        calculate_storage_costs_def storage_cost_step_def)

text \<open>
  Claim C3, amended. On an empty price table every valuation call fails with the
  IndexError of the first price lookup. On a non-empty table every call returns a result,
  whatever the rate, the capacity and the contract dates are; when the rate or the
  capacity is not positive the result has no operation, the two synthetic samples as its
  schedule, and cash flow, storage cost and contract value 0.
\<close>

theorem price_contract_no_validation:
  "(price_data self = [] \<longrightarrow>
      fst (price_contract self ids wds rate cap cs ce ov) = Inl IndexError)
   \<and> (price_data self \<noteq> [] \<longrightarrow>
        (\<exists>res. fst (price_contract self ids wds rate cap cs ce ov) = Inr res
           \<and> (rate \<le> 0 \<or> cap \<le> 0 \<longrightarrow>
                strategy res = [] \<and> inventory_schedule res = [(cs, 0), (ce, 0)]
                \<and> total_cash_flow res = 0 \<and> storage_costs res = 0
                \<and> contract_value res = 0)))"
proof (intro conjI impI)
  assume "price_data self = []"
  then show "fst (price_contract self ids wds rate cap cs ce ov) = Inl IndexError"
    unfolding price_contract_fst
    by (intro optimize_storage_strategy_empty) (simp add: price_data_override)
next
  let ?self = "case ov of None \<Rightarrow> self | Some c \<Rightarrow> self\<lparr>storage_cost_per_unit_per_day := c\<rparr>"
  assume "price_data self \<noteq> []"
  then have ne: "price_data ?self \<noteq> []" by (simp add: price_data_override)
  show "\<exists>res. fst (price_contract self ids wds rate cap cs ce ov) = Inr res
           \<and> (rate \<le> 0 \<or> cap \<le> 0 \<longrightarrow>
                strategy res = [] \<and> inventory_schedule res = [(cs, 0), (ce, 0)]
                \<and> total_cash_flow res = 0 \<and> storage_costs res = 0
                \<and> contract_value res = 0)"
  proof (cases "rate \<le> 0 \<or> cap \<le> 0")
    case True
    from optimize_no_operations[OF ne True, of ids wds cs ce]
    show ?thesis unfolding price_contract_fst by blast
  next
    case False
    from optimize_storage_strategy_nonempty[OF ne, of ids wds rate cap cs ce]
    obtain pm st where "optimize_storage_strategy ?self ids wds rate cap cs ce =
       finish ?self ce pm st" by blast
    moreover obtain cur tcf strat sched where "st = (cur, tcf, strat, sched)"
      by (metis prod_cases4)
    moreover from finish_nonempty[OF ne, of ce pm cur tcf strat sched]
    obtain res where "finish ?self ce pm (cur, tcf, strat, sched) = Inr res" by blast
    ultimately show ?thesis using False unfolding price_contract_fst by auto
  qed
qed

theorem price_contract_no_validation_witness:
  "fst (price_contract (GasStoragePricer [] (1 / 100)) [10, 20] [30] 50 100 0 40 None) =
     Inl IndexError
   \<and> (\<exists>res. fst (price_contract (GasStoragePricer [(0, 10), (100, 20)] (1 / 100))
                   [10, 20] [30] 0 (- 5) 40 0 None) = Inr res
          \<and> strategy res = [] \<and> inventory_schedule res = [(40, 0), (0, 0)]
          \<and> contract_value res = 0)"
proof -
  have e: "price_data (GasStoragePricer [] (1 / 100)) = []"
    by (simp add: GasStoragePricer_def)
  have n: "price_data (GasStoragePricer [(0, 10), (100, 20)] (1 / 100)) \<noteq> []"
    by (simp add: GasStoragePricer_def)
  have r: "(0 :: real) \<le> 0 \<or> (- 5 :: real) \<le> 0" by simp
  from price_contract_no_validation[of "GasStoragePricer [] (1 / 100)" "[10, 20]" "[30]"
         50 100 0 40 None] e
  have a: "fst (price_contract (GasStoragePricer [] (1 / 100)) [10, 20] [30] 50 100 0 40 None)
             = Inl IndexError" by blast
  from price_contract_no_validation[of "GasStoragePricer [(0, 10), (100, 20)] (1 / 100)"
         "[10, 20]" "[30]" 0 "- 5" 40 0 None] n r
  have "\<exists>res. fst (price_contract (GasStoragePricer [(0, 10), (100, 20)] (1 / 100))
                   [10, 20] [30] 0 (- 5) 40 0 None) = Inr res
          \<and> strategy res = [] \<and> inventory_schedule res = [(40, 0), (0, 0)]
          \<and> contract_value res = 0" by blast
  with a show ?thesis by blast
qed

subsection \<open>The storage cost override\<close>

text \<open>
  Claim C9. A call of \<open>price_contract\<close> with an override \<open>c\<close> leaves the object with
  its cost rate set to \<open>c\<close> and its price table unchanged; a later call on that object
  without an override is the call with the override \<open>c\<close> (so it leaves the rate at
  \<open>c\<close> again), and the storage cost of its result is computed with the rate \<open>c\<close>,
  not with the rate given to the constructor.
\<close>

theorem override_persists:
  "snd (price_contract self ids wds rate cap cs ce (Some c)) =
     self\<lparr>storage_cost_per_unit_per_day := c\<rparr>
   \<and> price_data (snd (price_contract self ids wds rate cap cs ce (Some c))) = price_data self
   \<and> price_contract (snd (price_contract self ids wds rate cap cs ce (Some c)))
        ids' wds' rate' cap' cs' ce' None =
      price_contract self ids' wds' rate' cap' cs' ce' (Some c)
   \<and> (\<forall>res. fst (price_contract (snd (price_contract self ids wds rate cap cs ce (Some c)))
                   ids' wds' rate' cap' cs' ce' None) = Inr res \<longrightarrow>
          storage_costs res =
            calculate_storage_costs (self\<lparr>storage_cost_per_unit_per_day := c\<rparr>)
              (inventory_schedule res))"
proof -
  have s: "snd (price_contract self ids wds rate cap cs ce (Some c)) =
             self\<lparr>storage_cost_per_unit_per_day := c\<rparr>"
    by (simp add: price_contract_def Let_def)
  have n: "price_contract (self\<lparr>storage_cost_per_unit_per_day := c\<rparr>)
             ids' wds' rate' cap' cs' ce' None =
           price_contract self ids' wds' rate' cap' cs' ce' (Some c)"
    by (simp add: price_contract_def Let_def)
  have "storage_costs res =
          calculate_storage_costs (self\<lparr>storage_cost_per_unit_per_day := c\<rparr>)
            (inventory_schedule res)"
    if "fst (price_contract (self\<lparr>storage_cost_per_unit_per_day := c\<rparr>)
              ids' wds' rate' cap' cs' ce' None) = Inr res" for res
    using that unfolding price_contract_fst by (simp add: optimize_storage_costs)
  then show ?thesis unfolding s using n by simp
qed

theorem override_persists_witness:
  "storage_cost_per_unit_per_day (GasStoragePricer [(0, 10), (100, 20)] (1 / 100)) = 1 / 100
   \<and> fst (price_contract
            (snd (price_contract (GasStoragePricer [(0, 10), (100, 20)] (1 / 100))
                    [10] [30] 50 100 0 40 (Some 1)))
            [10, 20] [30] 60 100 0 40 None) =
     Inr \<lparr>strategy =
            [\<lparr>date = 10, operation = Inject, volume = 60, price = 11,
               cash_flow = - 660, inventory_after = 60\<rparr>,
             \<lparr>date = 30, operation = Withdraw, volume = 60, price = 13,
               cash_flow = 780, inventory_after = 0\<rparr>],
          inventory_schedule = [(0, 0), (10, 60), (20, 60), (30, 0), (40, 0)],
          total_cash_flow = 120, storage_costs = 1200, contract_value = - 1080,
          price_map = [(0, 10), (10, 11), (20, 12), (30, 13), (40, 14)]\<rparr>"
proof -
  let ?self = "GasStoragePricer [(0, 10), (100, 20)] (1 / 100)"
  have "price_contract (snd (price_contract ?self [10] [30] 50 100 0 40 (Some 1)))
          [10, 20] [30] 60 100 0 40 None =
        price_contract ?self [10, 20] [30] 60 100 0 40 (Some 1)"
    using override_persists[of ?self "[10]" "[30]" 50 100 0 40 1 "[10, 20]" "[30]" 60 100 0 40]
    by blast
  then show ?thesis
    by (simp add: price_contract_def optimize_storage_strategy_def all_dates_of_def
        interpolate_price_def GasStoragePricer_def proposals_of_def finish_def
        calculate_storage_costs_def storage_cost_step_def)
qed

end
